theory Spec2Isabelle
  imports Main "HOL-Library.Word"
begin

section \<open>Data model of package synccache\<close>

text \<open>
  Go's \<open>int\<close> is a machine integer; it is modelled at its 64-bit width (amd64, arm64), read as
  two's complement by \<open>sint\<close> and compared with the signed orders \<open>\<le>s\<close> and \<open><s\<close>.
\<close>

type_synonym go_int = "64 word"

text \<open>
  Go's \<open>error\<close> interface: \<open>nil\<close> is \<open>None\<close>. \<open>ErrNotFound\<close> is the package variable of the
  source; every other error value, a callback's or the store constructor's, is a \<open>Failure\<close>
  carrying its message.
\<close>

datatype error = ErrNotFound | Failure string

text \<open>
  \<open>CacheItem\<close> is the interface with the single method \<open>ID()\<close>. A value of it is an item with
  its identity and some content; the \<open>nil\<close> interface value is \<open>None\<close> of \<open>CacheItem option\<close>.
\<close>

datatype CacheItem = Item (ID: string) (content: int)

text \<open>\<open>type CacheSyncAction int\<close> with the three constants numbered by \<open>iota\<close>.\<close>

type_synonym CacheSyncAction = go_int

definition Unchanged :: CacheSyncAction where
  "Unchanged = 0"

definition Update :: CacheSyncAction where
  "Update = 1"

definition Delete :: CacheSyncAction where
  "Delete = 2"

text \<open>
  A \<open>SyncFunction\<close> is caller code: it may read and change the world outside the cache (and
  count its own invocations). That world is the state \<open>'s\<close> threaded through every call; the
  context argument carries nothing the cache looks at.
\<close>

type_synonym 's SyncFunction =
  "'s \<Rightarrow> CacheItem \<Rightarrow> (CacheItem option \<times> CacheSyncAction \<times> error option) \<times> 's"

record cacheItemWrapper =
  CacheItem :: "CacheItem option"
  RetryCount :: go_int
  SyncError :: "error option"

text \<open>
  The store holds values of the empty interface type. \<open>Wrapped\<close> is a value whose dynamic type is
  \<open>cacheItemWrapper\<close>, \<open>Foreign\<close> stands for a value of any other dynamic type, on which the
  assertion \<open>val.(cacheItemWrapper)\<close> panics.
\<close>

datatype any = Wrapped cacheItemWrapper | Foreign string

text \<open>
  The run-time panics of the code: calling \<open>ID()\<close> on a nil interface, the assertion
  \<open>.(cacheItemWrapper)\<close> on a value of another type, the assertion \<open>.(CacheItem)\<close> on a nil
  interface, calling a nil \<open>syncCb\<close>, and a panic raised by the scope's \<open>MustNewCounter\<close>.
\<close>

datatype panic = NilDereference | NotAWrapper | NilCacheItem | NilSyncCb | MustNewCounterPanic

section \<open>The bounded store\<close>

text \<open>
  Modelled from the spec: the bounded store \<open>lru.Cache\<close> of github.com/hashicorp/golang-lru,
  which the source imports and which is not among the source files. Following section 4.1 of
  the specification: a capacity fixed at construction, which must be positive; entries ordered
  by recency, the head of \<open>evictList\<close> being the most recently touched; \<open>Get\<close> is a read that
  marks the entry as most recently used; \<open>Peek\<close> is a read that leaves the recency order
  alone; \<open>Add\<close> inserts or overwrites, at capacity with a new identity it first evicts the
  least recently touched entry; \<open>Remove\<close> deletes the entry if present; \<open>Keys\<close> is a copy of
  the current identities. An overwriting \<open>Add\<close> is a touch: the entry becomes the most
  recently used, as in the library (the comment in \<open>sync\<close> describes an update as
  a remove followed by an add). \<open>Keys\<close> lists from the oldest to the newest. The optional
  eviction hook only increments a metrics counter and is left out.
\<close>

record lru_Cache =
  lru_size :: go_int
  evictList :: "(string \<times> any) list"

text \<open>
  Modelled from the spec: \<open>lru.NewWithEvict\<close>, absent from the sources. The capacity must be
  positive or construction fails; the error carries the library's message.
\<close>

definition lru_NewWithEvict :: "go_int \<Rightarrow> error + lru_Cache" where
  "lru_NewWithEvict sz =
     (if sz \<le>s 0 then Inl (Failure ''Must provide a positive size'')
      else Inr \<lparr>lru_size = sz, evictList = []\<rparr>)"

text \<open>
  Modelled from the spec: dropping the entry of an identity from the recency list, absent
  from the sources.
\<close>

definition removeElement :: "string \<Rightarrow> (string \<times> any) list \<Rightarrow> (string \<times> any) list" where
  "removeElement k l = filter (\<lambda>e. fst e \<noteq> k) l"

text \<open>
  Modelled from the spec: \<open>Peek\<close>, absent from the sources. Read access without affecting
  recency: it returns the value and no new store.
\<close>

definition lru_Peek :: "string \<Rightarrow> lru_Cache \<Rightarrow> any option" where
  "lru_Peek k c = map_of (evictList c) k"

text \<open>
  Modelled from the spec: \<open>Get\<close>, absent from the sources. Read access that marks the entry
  as recently used: a hit moves the entry to the head of the list.
\<close>

definition lru_Get :: "string \<Rightarrow> lru_Cache \<Rightarrow> any option \<times> lru_Cache" where
  "lru_Get k c =
     (case map_of (evictList c) k of
        None \<Rightarrow> (None, c)
      | Some v \<Rightarrow> (Some v, c\<lparr>evictList := (k, v) # removeElement k (evictList c)\<rparr>))"

text \<open>
  Modelled from the spec: \<open>Add\<close>, absent from the sources. Insert or overwrite. An identity
  already present gets the new value and becomes the most recently used; a new identity at
  capacity first evicts the least recently touched entry, the last of the list.
\<close>

definition lru_Add :: "string \<Rightarrow> any \<Rightarrow> lru_Cache \<Rightarrow> lru_Cache" where
  "lru_Add k v c =
     (case map_of (evictList c) k of
        Some old \<Rightarrow> c\<lparr>evictList := (k, v) # removeElement k (evictList c)\<rparr>
      | None \<Rightarrow>
          (if sint (lru_size c) \<le> int (length (evictList c))
           then c\<lparr>evictList := (k, v) # butlast (evictList c)\<rparr>
           else c\<lparr>evictList := (k, v) # evictList c\<rparr>))"

text \<open>
  Modelled from the spec: \<open>Remove\<close>, absent from the sources. Deletes the entry if present,
  no-op otherwise.
\<close>

definition lru_Remove :: "string \<Rightarrow> lru_Cache \<Rightarrow> lru_Cache" where
  "lru_Remove k c = c\<lparr>evictList := removeElement k (evictList c)\<rparr>"

text \<open>
  Modelled from the spec: \<open>Keys\<close>, absent from the sources. A copy of the current
  identities, from the least to the most recently used.
\<close>

definition lru_Keys :: "lru_Cache \<Rightarrow> string list" where
  "lru_Keys c = rev (map fst (evictList c))"

section \<open>The auto-refresh cache\<close>

text \<open>
  \<open>autoRefreshCache\<close> with its fields. The rate limiter, the resync period and the metrics
  scope are stored by the constructor and never read by \<open>Get\<close>, \<open>GetOrCreate\<close> or \<open>sync\<close>;
  a nil interface is \<open>None\<close>. \<open>lruMap\<close> is the one field that is mutated, so every operation
  returns the cache it leaves.

  The scope is an interface of the metrics package, which is not among the sources. The one
  method the constructor calls is \<open>MustNewCounter\<close>, so a scope is given by what that method
  does for a name and a description: it returns a counter or it panics. A counter is known by
  its handle, and the eviction hook by the counter it increments.
\<close>

type_synonym RateLimiter = nat
type_synonym Counter = nat

record Scope =
  MustNewCounter :: "string \<Rightarrow> string \<Rightarrow> panic + Counter"

definition getEvictionFunction :: "Counter \<Rightarrow> Counter" where
  "getEvictionFunction counter = counter"

record 's autoRefreshCache =
  syncCb :: "'s SyncFunction option"
  lruMap :: lru_Cache
  syncRateLimiter :: "RateLimiter option"
  resyncPeriod :: go_int
  scope :: "Scope option"
  maxRetries :: go_int

definition Get ::
  "string \<Rightarrow> 's autoRefreshCache \<Rightarrow>
     panic + ((CacheItem option \<times> error option) \<times> 's autoRefreshCache)" where
  "Get key w =
     (case lru_Get key (lruMap w) of
        (Some val, m) \<Rightarrow>
          (case val of
             Wrapped wrapper \<Rightarrow>
               Inr ((CacheItem wrapper, SyncError wrapper), w\<lparr>lruMap := m\<rparr>)
           | Foreign t \<Rightarrow> Inl NotAWrapper)
      | (None, m) \<Rightarrow> Inr ((None, Some ErrNotFound), w\<lparr>lruMap := m\<rparr>))"

definition GetOrCreate ::
  "CacheItem option \<Rightarrow> 's autoRefreshCache \<Rightarrow>
     panic + ((CacheItem option \<times> error option) \<times> 's autoRefreshCache)" where
  "GetOrCreate item w =
     (case item of
        None \<Rightarrow> Inl NilDereference
      | Some it \<Rightarrow>
          (case lru_Get (ID it) (lruMap w) of
             (Some val, m) \<Rightarrow>
               (case val of
                  Wrapped wrapper \<Rightarrow>
                    Inr ((CacheItem wrapper, SyncError wrapper), w\<lparr>lruMap := m\<rparr>)
                | Foreign t \<Rightarrow> Inl NotAWrapper)
           | (None, m) \<Rightarrow>
               Inr ((Some it, None),
                    w\<lparr>lruMap := lru_Add (ID it)
                        (Wrapped \<lparr>CacheItem = Some it, RetryCount = 0, SyncError = None\<rparr>) m\<rparr>)))"

text \<open>
  The body of the loop of \<open>sync\<close> for one key of the snapshot. The result is the cache and the
  callback's world after the iteration, or the panic that ends the cycle. Executions are
  sequential: calls of other goroutines that the store's lock would let in between the
  \<open>Peek\<close> and the \<open>Add\<close> of one iteration are not modelled.
\<close>

definition sync_item ::
  "string \<Rightarrow> 's autoRefreshCache \<Rightarrow> 's \<Rightarrow> panic + ('s autoRefreshCache \<times> 's)" where
  "sync_item k w \<sigma> =
     (case lru_Peek k (lruMap w) of
        None \<Rightarrow> Inr (w, \<sigma>)
      | Some val \<Rightarrow>
          (case val of
             Foreign t \<Rightarrow> Inl NotAWrapper
           | Wrapped wrapper \<Rightarrow>
               if maxRetries w <s RetryCount wrapper then Inr (w, \<sigma>)
               else
                 (case CacheItem wrapper of
                    None \<Rightarrow> Inl NilCacheItem
                  | Some cacheItem \<Rightarrow>
                      (case syncCb w of
                         None \<Rightarrow> Inl NilSyncCb
                       | Some cb \<Rightarrow>
                           (case cb \<sigma> cacheItem of
                              ((newItem, result, err), \<sigma>') \<Rightarrow>
                                (case err of
                                   Some e \<Rightarrow>
                                     Inr (w\<lparr>lruMap := lru_Add k
                                            (Wrapped \<lparr>CacheItem = Some cacheItem,
                                                      RetryCount = RetryCount wrapper + 1,
                                                      SyncError = Some e\<rparr>) (lruMap w)\<rparr>, \<sigma>')
                                 | None \<Rightarrow>
                                     if result = Update then
                                       Inr (w\<lparr>lruMap := lru_Add k
                                              (Wrapped \<lparr>CacheItem = newItem, RetryCount = 0,
                                                        SyncError = None\<rparr>) (lruMap w)\<rparr>, \<sigma>')
                                     else if result = Delete then
                                       Inr (w\<lparr>lruMap := lru_Remove k (lruMap w)\<rparr>, \<sigma>')
                                     else Inr (w, \<sigma>')))))))"

fun sync_keys ::
  "string list \<Rightarrow> 's autoRefreshCache \<Rightarrow> 's \<Rightarrow> panic + ('s autoRefreshCache \<times> 's)" where
  "sync_keys [] w \<sigma> = Inr (w, \<sigma>)"
| "sync_keys (k # ks) w \<sigma> =
     (case sync_item k w \<sigma> of
        Inl p \<Rightarrow> Inl p
      | Inr (w', \<sigma>') \<Rightarrow> sync_keys ks w' \<sigma>')"

definition sync :: "'s autoRefreshCache \<Rightarrow> 's \<Rightarrow> panic + ('s autoRefreshCache \<times> 's)" where
  "sync w \<sigma> = sync_keys (lru_Keys (lruMap w)) w \<sigma>"

text \<open>
  The constructor. With a non-nil scope it first asks the scope for the counter of evictions
  and wraps it into the eviction hook; a panic of \<open>MustNewCounter\<close> ends the construction
  there. Then it calls the store constructor with the hook (which the store model leaves
  out), returns the store constructor's error as it is, and otherwise records the options.
  The outer sum is the panic, the inner one the returned error.
\<close>

definition NewAutoRefreshCache ::
  "'s SyncFunction option \<Rightarrow> RateLimiter option \<Rightarrow> go_int \<Rightarrow> go_int \<Rightarrow> go_int \<Rightarrow>
     Scope option \<Rightarrow> panic + (error + 's autoRefreshCache)" where
  "NewAutoRefreshCache cb limiter period maxSize retries sc =
     (case (case sc of
              None \<Rightarrow> Inr None
            | Some s \<Rightarrow>
                (case MustNewCounter s ''lru_evictions'' ''Counter for evictions from LRU'' of
                   Inl p \<Rightarrow> Inl p
                 | Inr counter \<Rightarrow> Inr (Some (getEvictionFunction counter)))) of
        Inl p \<Rightarrow> Inl p
      | Inr evictionFunction \<Rightarrow>
          (case lru_NewWithEvict maxSize of
             Inl err \<Rightarrow> Inr (Inl err)
           | Inr lruCache \<Rightarrow>
               Inr (Inr \<lparr>syncCb = cb, lruMap = lruCache, syncRateLimiter = limiter,
                         resyncPeriod = period, scope = sc, maxRetries = retries\<rparr>)))"

section \<open>Successive cycles and reachable states\<close>

text \<open>
  \<open>Start\<close> hands \<open>sync\<close> to \<open>wait.Until\<close>, which calls it again and again, one call after
  the other, until the context is cancelled. \<open>cycles n\<close> is that loop cancelled after \<open>n\<close>
  ticks; a panic of a cycle ends it.
\<close>

fun cycles ::
  "nat \<Rightarrow> 's autoRefreshCache \<Rightarrow> 's \<Rightarrow> panic + ('s autoRefreshCache \<times> 's)" where
  "cycles 0 w \<sigma> = Inr (w, \<sigma>)"
| "cycles (Suc n) w \<sigma> =
     (case sync w \<sigma> of
        Inl p \<Rightarrow> Inl p
      | Inr (w', \<sigma>') \<Rightarrow> cycles n w' \<sigma>')"

text \<open>
  One operation on the cache that returns: a \<open>Get\<close>, a \<open>GetOrCreate\<close> or a whole sync cycle.
  The reachable caches are those built by \<open>NewAutoRefreshCache\<close> and then operated on.
\<close>

inductive step :: "'s autoRefreshCache \<Rightarrow> 's autoRefreshCache \<Rightarrow> bool" where
  step_Get: "Get key w = Inr (r, w') \<Longrightarrow> step w w'"
| step_GetOrCreate: "GetOrCreate item w = Inr (r, w') \<Longrightarrow> step w w'"
| step_sync: "sync w \<sigma> = Inr (w', \<sigma>') \<Longrightarrow> step w w'"

inductive reachable :: "'s autoRefreshCache \<Rightarrow> bool" where
  reachable_new:
    "NewAutoRefreshCache cb limiter period maxSize retries sc = Inr (Inr w) \<Longrightarrow> reachable w"
| reachable_step: "reachable w \<Longrightarrow> step w w' \<Longrightarrow> reachable w'"

text \<open>Every stored value is a wrapper, and the wrapper satisfies \<open>P\<close>.\<close>

definition entries_sat :: "(cacheItemWrapper \<Rightarrow> bool) \<Rightarrow> lru_Cache \<Rightarrow> bool" where
  "entries_sat P c =
     list_all (\<lambda>e. case snd e of Wrapped x \<Rightarrow> P x | Foreign t \<Rightarrow> False) (evictList c)"

text \<open>The largest value of Go's \<open>int\<close>.\<close>

definition MaxInt :: go_int where
  "MaxInt = 0x7FFFFFFFFFFFFFFF"

section \<open>A concrete callback and concrete caches\<close>

text \<open>
  A callback that decides by the identity of the item it is given and counts its invocations:
  it fails on \<open>a\<close>, updates \<open>b\<close>, reports \<open>c\<close> unchanged (with some other item as
  \<open>newItem\<close>), deletes \<open>d\<close>, and answers \<open>Update\<close> with a nil item on \<open>n\<close>.
\<close>

definition demo_cb :: "nat SyncFunction" where
  "demo_cb count it =
     (if ID it = ''a'' then ((None, Unchanged, Some (Failure ''boom'')), Suc count)
      else if ID it = ''b'' then ((Some (Item ''b'' (content it + 1)), Update, None), Suc count)
      else if ID it = ''d'' then ((None, Delete, None), Suc count)
      else if ID it = ''n'' then ((None, Update, None), Suc count)
      else ((Some (Item ''other'' 7), Unchanged, None), Suc count))"

text \<open>A callback that always succeeds with \<open>Update\<close> and a new, non-nil item.\<close>

definition bump_cb :: "nat SyncFunction" where
  "bump_cb count it = ((Some (Item (ID it) (content it + 1)), Update, None), Suc count)"

text \<open>
  Two scopes: one whose \<open>MustNewCounter\<close> returns a counter, one whose \<open>MustNewCounter\<close>
  panics, as a scope does when the counter cannot be registered.
\<close>

definition demo_scope :: Scope where
  "demo_scope = \<lparr>MustNewCounter = (\<lambda>name description. Inr 0)\<rparr>"

definition failing_scope :: Scope where
  "failing_scope = \<lparr>MustNewCounter = (\<lambda>name description. Inl MustNewCounterPanic)\<rparr>"

definition fresh :: "CacheItem \<Rightarrow> any" where
  "fresh it = Wrapped \<lparr>CacheItem = Some it, RetryCount = 0, SyncError = None\<rparr>"

definition failed :: "CacheItem \<Rightarrow> go_int \<Rightarrow> any" where
  "failed it n =
     Wrapped \<lparr>CacheItem = Some it, RetryCount = n, SyncError = Some (Failure ''boom'')\<rparr>"

definition demo_cache :: "go_int \<Rightarrow> go_int \<Rightarrow> (string \<times> any) list \<Rightarrow> nat autoRefreshCache" where
  "demo_cache sz retries l =
     \<lparr>syncCb = Some demo_cb, lruMap = \<lparr>lru_size = sz, evictList = l\<rparr>,
      syncRateLimiter = None, resyncPeriod = 1000, scope = None, maxRetries = retries\<rparr>"

section \<open>Facts about the store\<close>

lemmas store_defs = lru_Peek_def lru_Get_def lru_Add_def lru_Remove_def lru_Keys_def
  removeElement_def lru_NewWithEvict_def

lemmas demo_defs = demo_cb_def fresh_def failed_def demo_cache_def Unchanged_def Update_def
  Delete_def MaxInt_def word_sless_alt word_sle_eq

lemma map_of_removeElement:
  "map_of (removeElement k l) k' = (if k' = k then None else map_of l k')"
  by (induction l) (auto simp: removeElement_def)

lemma map_of_butlast:
  "map_of (butlast l) k = map_of l k \<or> map_of (butlast l) k = None"
  by (induction l) auto

lemma Peek_Add_present:
  "lru_Peek k c = Some old \<Longrightarrow>
   lru_Peek k' (lru_Add k v c) = (if k' = k then Some v else lru_Peek k' c)"
  by (simp add: lru_Peek_def lru_Add_def map_of_removeElement)

lemma Peek_Add_same: "lru_Peek k (lru_Add k v c) = Some v"
  by (simp add: lru_Peek_def lru_Add_def split: option.splits)

lemma Peek_Add_other:
  "lru_Peek k' (lru_Add k v c) = lru_Peek k' c \<or> lru_Peek k' (lru_Add k v c) = None
   \<or> k' = k"
  using map_of_butlast [of "evictList c" k']
  by (auto simp: lru_Peek_def lru_Add_def map_of_removeElement split: option.splits)

lemma Peek_Remove:
  "lru_Peek k' (lru_Remove k c) = (if k' = k then None else lru_Peek k' c)"
  by (simp add: lru_Peek_def lru_Remove_def map_of_removeElement)

lemma Peek_Get: "lru_Peek k' (snd (lru_Get k c)) = lru_Peek k' c"
  by (auto simp: lru_Peek_def lru_Get_def map_of_removeElement split: option.splits)

lemma Get_absent: "lru_Peek k c = None \<Longrightarrow> lru_Get k c = (None, c)"
  by (simp add: lru_Peek_def lru_Get_def)

lemma Get_present:
  "lru_Peek k c = Some v \<Longrightarrow>
   lru_Get k c = (Some v, c\<lparr>evictList := (k, v) # removeElement k (evictList c)\<rparr>)"
  by (simp add: lru_Peek_def lru_Get_def)

section \<open>The operations, case by case\<close>

lemma Get_Wrapped:
  "lru_Peek key (lruMap w) = Some (Wrapped x) \<Longrightarrow>
   Get key w = Inr ((CacheItem x, SyncError x), w\<lparr>lruMap := snd (lru_Get key (lruMap w))\<rparr>)"
  by (simp add: Get_def Get_present)

lemma Get_None:
  "lru_Peek key (lruMap w) = None \<Longrightarrow> Get key w = Inr ((None, Some ErrNotFound), w)"
  by (simp add: Get_def Get_absent)

lemma Get_Foreign:
  "lru_Peek key (lruMap w) = Some (Foreign t) \<Longrightarrow> Get key w = Inl NotAWrapper"
  by (simp add: Get_def Get_present)


lemma sync_item_stalled:
  "lru_Peek k (lruMap w) = Some (Wrapped x) \<Longrightarrow> maxRetries w <s RetryCount x \<Longrightarrow>
   sync_item k w \<sigma> = Inr (w, \<sigma>)"
  by (simp add: sync_item_def)

text \<open>What one iteration can do to the cache, when it returns.\<close>

lemma sync_item_cases:
  assumes "sync_item k w \<sigma> = Inr (w', \<sigma>')"
  shows "w' = w
    \<or> (\<exists>x it cb n a e. lru_Peek k (lruMap w) = Some (Wrapped x) \<and> \<not> maxRetries w <s RetryCount x
          \<and> CacheItem x = Some it \<and> syncCb w = Some cb \<and> cb \<sigma> it = ((n, a, Some e), \<sigma>')
          \<and> w' = w\<lparr>lruMap := lru_Add k (Wrapped \<lparr>CacheItem = Some it,
                  RetryCount = RetryCount x + 1, SyncError = Some e\<rparr>) (lruMap w)\<rparr>)
    \<or> (\<exists>x it cb n. lru_Peek k (lruMap w) = Some (Wrapped x) \<and> \<not> maxRetries w <s RetryCount x
          \<and> CacheItem x = Some it \<and> syncCb w = Some cb \<and> cb \<sigma> it = ((n, Update, None), \<sigma>')
          \<and> w' = w\<lparr>lruMap := lru_Add k (Wrapped \<lparr>CacheItem = n, RetryCount = 0,
                  SyncError = None\<rparr>) (lruMap w)\<rparr>)
    \<or> (\<exists>x. lru_Peek k (lruMap w) = Some (Wrapped x) \<and> w' = w\<lparr>lruMap := lru_Remove k (lruMap w)\<rparr>)"
  using assms
  by (auto simp: sync_item_def split: option.splits any.splits if_splits prod.splits)

section \<open>Entries that a later iteration leaves alone\<close>

lemma sync_item_fields:
  "sync_item k w \<sigma> = Inr (w', \<sigma>') \<Longrightarrow>
   maxRetries w' = maxRetries w \<and> syncCb w' = syncCb w"
  by (drule sync_item_cases) auto

lemma sync_item_frame:
  "sync_item k' w \<sigma> = Inr (w', \<sigma>') \<Longrightarrow> k \<noteq> k' \<Longrightarrow>
   lru_Peek k (lruMap w') = lru_Peek k (lruMap w)"
  by (drule sync_item_cases) (auto simp: Peek_Add_present Peek_Remove)

lemma sync_item_keeps_stalled:
  assumes "sync_item k' w \<sigma> = Inr (w', \<sigma>')"
    and "lru_Peek k (lruMap w) = Some (Wrapped x)"
    and "maxRetries w <s RetryCount x"
  shows "lru_Peek k (lruMap w') = Some (Wrapped x)"
proof (cases "k = k'")
  case True
  with assms show ?thesis by (simp add: sync_item_stalled)
next
  case False
  with assms show ?thesis by (simp add: sync_item_frame)
qed

lemma sync_keys_keeps_stalled:
  "sync_keys ks w \<sigma> = Inr (w', \<sigma>') \<Longrightarrow> lru_Peek k (lruMap w) = Some (Wrapped x) \<Longrightarrow>
   maxRetries w <s RetryCount x \<Longrightarrow> lru_Peek k (lruMap w') = Some (Wrapped x)"
proof (induction ks arbitrary: w \<sigma>)
  case Nil
  then show ?case by simp
next
  case (Cons k' ks)
  from Cons.prems(1) obtain w1 \<sigma>1 where
    one: "sync_item k' w \<sigma> = Inr (w1, \<sigma>1)" and rest: "sync_keys ks w1 \<sigma>1 = Inr (w', \<sigma>')"
    by (auto split: sum.splits)
  from one Cons.prems(2,3) have "lru_Peek k (lruMap w1) = Some (Wrapped x)"
    by (rule sync_item_keeps_stalled)
  moreover from one Cons.prems(3) have "maxRetries w1 <s RetryCount x"
    by (simp add: sync_item_fields)
  ultimately show ?case using rest by (rule Cons.IH [rotated])
qed

section \<open>Invariants of the stored wrappers\<close>

lemma entries_sat_Peek:
  "entries_sat P c \<Longrightarrow> lru_Peek k c = Some v \<Longrightarrow> \<exists>x. v = Wrapped x \<and> P x"
proof -
  assume sat: "entries_sat P c" and peek: "lru_Peek k c = Some v"
  from peek have "(k, v) \<in> set (evictList c)"
    by (auto simp: lru_Peek_def dest: map_of_SomeD)
  with sat have "case v of Wrapped x \<Rightarrow> P x | Foreign t \<Rightarrow> False"
    by (fastforce simp: entries_sat_def list_all_iff)
  then show ?thesis by (cases v) auto
qed

lemma entries_sat_cons_filter:
  "entries_sat P c \<Longrightarrow> P x \<Longrightarrow>
   entries_sat P (c\<lparr>evictList := (k, Wrapped x) # removeElement k (evictList c)\<rparr>)"
  by (auto simp: entries_sat_def list_all_iff removeElement_def)

lemma entries_sat_Get: "entries_sat P c \<Longrightarrow> entries_sat P (snd (lru_Get k c))"
proof (cases "lru_Peek k c")
  case None
  assume "entries_sat P c"
  with None show ?thesis by (simp add: Get_absent)
next
  case (Some v)
  assume sat: "entries_sat P c"
  with Some obtain x where "v = Wrapped x" "P x" by (auto dest: entries_sat_Peek)
  with Some sat show ?thesis by (simp add: Get_present entries_sat_cons_filter)
qed

lemma entries_sat_Add:
  "entries_sat P c \<Longrightarrow> P x \<Longrightarrow> entries_sat P (lru_Add k (Wrapped x) c)"
  by (auto simp: entries_sat_def list_all_iff lru_Add_def removeElement_def
      dest: in_set_butlastD split: option.splits)

lemma entries_sat_Remove: "entries_sat P c \<Longrightarrow> entries_sat P (lru_Remove k c)"
  by (auto simp: entries_sat_def list_all_iff lru_Remove_def removeElement_def)

lemma Get_entries_sat:
  "Get key w = Inr (r, w') \<Longrightarrow> entries_sat P (lruMap w) \<Longrightarrow> entries_sat P (lruMap w')"
  using entries_sat_Get [of P "lruMap w" key]
  by (auto simp: Get_def split: prod.splits option.splits any.splits)

lemma Get_fields:
  "Get key w = Inr (r, w') \<Longrightarrow> maxRetries w' = maxRetries w \<and> syncCb w' = syncCb w"
  by (auto simp: Get_def split: prod.splits option.splits any.splits)

lemma GetOrCreate_entries_sat:
  assumes "GetOrCreate item w = Inr (r, w')" and "entries_sat P (lruMap w)"
    and "\<And>it. P \<lparr>CacheItem = Some it, RetryCount = 0, SyncError = None\<rparr>"
  shows "entries_sat P (lruMap w')"
proof -
  from assms(1) obtain it where item: "item = Some it"
    by (cases item) (auto simp: GetOrCreate_def)
  show ?thesis
  proof (cases "lru_Peek (ID it) (lruMap w)")
    case None
    with assms(1) item
    have "lruMap w' = lru_Add (ID it)
            (Wrapped \<lparr>CacheItem = Some it, RetryCount = 0, SyncError = None\<rparr>) (lruMap w)"
      by (auto simp: GetOrCreate_def Get_absent)
    with assms(2,3) show ?thesis by (simp add: entries_sat_Add)
  next
    case (Some v)
    with assms(1) item have "lruMap w' = snd (lru_Get (ID it) (lruMap w))"
      by (auto simp: GetOrCreate_def Get_present split: any.splits)
    with assms(2) show ?thesis by (simp add: entries_sat_Get)
  qed
qed

lemma GetOrCreate_fields:
  "GetOrCreate item w = Inr (r, w') \<Longrightarrow>
   maxRetries w' = maxRetries w \<and> syncCb w' = syncCb w"
  by (auto simp: GetOrCreate_def split: prod.splits option.splits any.splits)

lemma sync_item_entries_sat:
  assumes "sync_item k w \<sigma> = Inr (w', \<sigma>')" and "entries_sat P (lruMap w)"
    and err: "\<And>x it e. P x \<Longrightarrow> \<not> maxRetries w <s RetryCount x \<Longrightarrow> CacheItem x = Some it \<Longrightarrow>
           P \<lparr>CacheItem = Some it, RetryCount = RetryCount x + 1, SyncError = Some e\<rparr>"
    and upd: "\<And>cb \<sigma> it n \<sigma>'. syncCb w = Some cb \<Longrightarrow> cb \<sigma> it = ((n, Update, None), \<sigma>') \<Longrightarrow>
           P \<lparr>CacheItem = n, RetryCount = 0, SyncError = None\<rparr>"
  shows "entries_sat P (lruMap w')"
  using sync_item_cases [OF assms(1)] assms(2)
  by (auto simp: entries_sat_Remove intro!: entries_sat_Add err upd
      dest: entries_sat_Peek)

lemma sync_keys_entries_sat:
  assumes "sync_keys ks w \<sigma> = Inr (w', \<sigma>')" and "entries_sat P (lruMap w)"
    and err: "\<And>x it e. P x \<Longrightarrow> \<not> maxRetries w <s RetryCount x \<Longrightarrow> CacheItem x = Some it \<Longrightarrow>
           P \<lparr>CacheItem = Some it, RetryCount = RetryCount x + 1, SyncError = Some e\<rparr>"
    and upd: "\<And>cb \<sigma> it n \<sigma>'. syncCb w = Some cb \<Longrightarrow> cb \<sigma> it = ((n, Update, None), \<sigma>') \<Longrightarrow>
           P \<lparr>CacheItem = n, RetryCount = 0, SyncError = None\<rparr>"
  shows "entries_sat P (lruMap w')"
  using assms
proof (induction ks arbitrary: w \<sigma>)
  case Nil
  then show ?case by simp
next
  case (Cons k ks)
  from Cons.prems(1) obtain w1 \<sigma>1 where
    one: "sync_item k w \<sigma> = Inr (w1, \<sigma>1)" and rest: "sync_keys ks w1 \<sigma>1 = Inr (w', \<sigma>')"
    by (auto split: sum.splits)
  have same: "maxRetries w1 = maxRetries w" "syncCb w1 = syncCb w"
    using one by (simp_all add: sync_item_fields)
  have sat1: "entries_sat P (lruMap w1)"
    using one Cons.prems(2)
  proof (rule sync_item_entries_sat)
    show "P \<lparr>CacheItem = Some it, RetryCount = RetryCount x + 1, SyncError = Some e\<rparr>"
      if "P x" "\<not> maxRetries w <s RetryCount x" "CacheItem x = Some it" for x it e
      using that by (rule Cons.prems(3))
    show "P \<lparr>CacheItem = n, RetryCount = 0, SyncError = None\<rparr>"
      if "syncCb w = Some cb" "cb \<sigma> it = ((n, Update, None), \<sigma>')" for cb \<sigma> it n \<sigma>'
      using that by (rule Cons.prems(4))
  qed
  show ?case
    using rest sat1
  proof (rule Cons.IH)
    show "P \<lparr>CacheItem = Some it, RetryCount = RetryCount x + 1, SyncError = Some e\<rparr>"
      if "P x" "\<not> maxRetries w1 <s RetryCount x" "CacheItem x = Some it" for x it e
      using that unfolding same by (rule Cons.prems(3))
    show "P \<lparr>CacheItem = n, RetryCount = 0, SyncError = None\<rparr>"
      if "syncCb w1 = Some cb" "cb \<sigma> it = ((n, Update, None), \<sigma>')" for cb \<sigma> it n \<sigma>'
      using that unfolding same by (rule Cons.prems(4))
  qed
qed

lemma sync_keys_fields:
  "sync_keys ks w \<sigma> = Inr (w', \<sigma>') \<Longrightarrow>
   maxRetries w' = maxRetries w \<and> syncCb w' = syncCb w"
proof (induction ks arbitrary: w \<sigma>)
  case Nil
  then show ?case by simp
next
  case (Cons k ks)
  then show ?case by (auto split: sum.splits dest!: sync_item_fields)
qed

lemma step_fields: "step w w' \<Longrightarrow> maxRetries w' = maxRetries w \<and> syncCb w' = syncCb w"
  by (induction rule: step.induct)
     (auto simp: sync_def dest: Get_fields GetOrCreate_fields sync_keys_fields)

lemma step_entries_sat:
  assumes "step w w'" and "entries_sat P (lruMap w)"
    and "\<And>it. P \<lparr>CacheItem = Some it, RetryCount = 0, SyncError = None\<rparr>"
    and "\<And>x it e. P x \<Longrightarrow> \<not> maxRetries w <s RetryCount x \<Longrightarrow> CacheItem x = Some it \<Longrightarrow>
           P \<lparr>CacheItem = Some it, RetryCount = RetryCount x + 1, SyncError = Some e\<rparr>"
    and "\<And>cb \<sigma> it n \<sigma>'. syncCb w = Some cb \<Longrightarrow> cb \<sigma> it = ((n, Update, None), \<sigma>') \<Longrightarrow>
           P \<lparr>CacheItem = n, RetryCount = 0, SyncError = None\<rparr>"
  shows "entries_sat P (lruMap w')"
  using assms(1)
proof cases
  case (step_Get key r)
  then show ?thesis using assms(2) by (rule Get_entries_sat)
next
  case (step_GetOrCreate item r)
  then show ?thesis using assms(2,3) by (rule GetOrCreate_entries_sat)
next
  case (step_sync \<sigma> \<sigma>')
  then have "sync_keys (lru_Keys (lruMap w)) w \<sigma> = Inr (w', \<sigma>')" by (simp add: sync_def)
  then show ?thesis using assms(2)
  proof (rule sync_keys_entries_sat)
    show "P \<lparr>CacheItem = Some it, RetryCount = RetryCount x + 1, SyncError = Some e\<rparr>"
      if "P x" "\<not> maxRetries w <s RetryCount x" "CacheItem x = Some it" for x it e
      using that by (rule assms(4))
    show "P \<lparr>CacheItem = n, RetryCount = 0, SyncError = None\<rparr>"
      if "syncCb w = Some cb" "cb \<sigma> it = ((n, Update, None), \<sigma>')" for cb \<sigma> it n \<sigma>'
      using that by (rule assms(5))
  qed
qed

lemma reachable_entries_sat:
  assumes "reachable w"
    and fresh: "\<And>it. P \<lparr>CacheItem = Some it, RetryCount = 0, SyncError = None\<rparr>"
    and err: "\<And>x it e. P x \<Longrightarrow> \<not> maxRetries w <s RetryCount x \<Longrightarrow> CacheItem x = Some it \<Longrightarrow>
           P \<lparr>CacheItem = Some it, RetryCount = RetryCount x + 1, SyncError = Some e\<rparr>"
    and upd: "\<And>cb \<sigma> it n \<sigma>'. syncCb w = Some cb \<Longrightarrow> cb \<sigma> it = ((n, Update, None), \<sigma>') \<Longrightarrow>
           P \<lparr>CacheItem = n, RetryCount = 0, SyncError = None\<rparr>"
  shows "entries_sat P (lruMap w)"
  using assms(1) err upd
proof (induction rule: reachable.induct)
  case (reachable_new cb limiter period maxSize retries sc w)
  then show ?case
    by (auto simp: NewAutoRefreshCache_def lru_NewWithEvict_def entries_sat_def
        split: if_splits option.splits sum.splits)
next
  case (reachable_step w w')
  have same: "maxRetries w' = maxRetries w" "syncCb w' = syncCb w"
    using reachable_step.hyps(2) by (simp_all add: step_fields)
  have errw: "P \<lparr>CacheItem = Some it, RetryCount = RetryCount x + 1, SyncError = Some e\<rparr>"
    if "P x" "\<not> maxRetries w <s RetryCount x" "CacheItem x = Some it" for x it e
    using that unfolding same [symmetric] by (rule reachable_step.prems(1))
  have updw: "P \<lparr>CacheItem = n, RetryCount = 0, SyncError = None\<rparr>"
    if "syncCb w = Some cb" "cb \<sigma> it = ((n, Update, None), \<sigma>')" for cb \<sigma> it n \<sigma>'
    using that unfolding same [symmetric] by (rule reachable_step.prems(2))
  have "entries_sat P (lruMap w)"
    using errw updw by (rule reachable_step.IH)
  with reachable_step.hyps(2) show ?case
    using fresh errw updw by (rule step_entries_sat)
qed

section \<open>Arithmetic of the retry counter\<close>


lemma sint_succ:
  "x \<noteq> MaxInt \<Longrightarrow> sint (x + 1 :: go_int) = sint x + 1"
proof -
  assume ne: "x \<noteq> MaxInt"
  have up: "sint x < 2 ^ 63" using sint_lt [of x] by simp
  have lo: "- (2 ^ 63) \<le> sint x" using sint_ge [of x] by simp
  have "sint x \<noteq> 2 ^ 63 - 1"
  proof
    assume "sint x = 2 ^ 63 - 1"
    then have "sint x = sint MaxInt" by (simp add: MaxInt_def)
    then have "x = MaxInt" by (simp only: signed_word_eqI)
    with ne show False by simp
  qed
  with up have "sint x + 1 < 2 ^ 63" by simp
  with lo show ?thesis
    by (simp add: sint_word_ariths signed_take_bit_int_eq_self)
qed

section \<open>The sync cycle, verdict by verdict\<close>

text \<open>
  C1. When the wrapper of a snapshotted identity has \<open>RetryCount \<le> maxRetries\<close> and the
  callback returns a non-nil error, the iteration returns normally (the error is recorded, not
  propagated), the identity then holds a wrapper with the same item, the retry count plus one
  (Go's addition, which is the integer successor below \<open>MaxInt\<close>) and the returned error, no
  other identity's entry is changed, and the cycle goes on with the remaining keys.
\<close>

theorem sync_error_recorded:
  assumes "lru_Peek k (lruMap w) = Some (Wrapped wrapper)"
    and "RetryCount wrapper \<le>s maxRetries w"
    and "CacheItem wrapper = Some item"
    and "syncCb w = Some cb"
    and "cb \<sigma> item = ((newItem, result, Some e), \<sigma>')"
  shows "\<exists>w'. sync_item k w \<sigma> = Inr (w', \<sigma>')
           \<and> lru_Peek k (lruMap w') =
               Some (Wrapped \<lparr>CacheItem = Some item, RetryCount = RetryCount wrapper + 1,
                              SyncError = Some e\<rparr>)
           \<and> (RetryCount wrapper \<noteq> MaxInt \<longrightarrow>
                sint (RetryCount wrapper + 1) = sint (RetryCount wrapper) + 1)
           \<and> (\<forall>k'. k' \<noteq> k \<longrightarrow> lru_Peek k' (lruMap w') = lru_Peek k' (lruMap w))
           \<and> sync_keys (k # ks) w \<sigma> = sync_keys ks w' \<sigma>'"
  using assms
  by (simp add: sync_item_def Peek_Add_present word_sless_alt word_sle_eq sint_succ)

theorem sync_error_recorded_witness:
  "lru_Peek ''a'' (lruMap (demo_cache 2 1 [(''c'', fresh (Item ''c'' 1)),
      (''a'', failed (Item ''a'' 1) 1)])) = Some (failed (Item ''a'' 1) 1)
   \<and> (1 :: go_int) \<le>s 1
   \<and> demo_cb 0 (Item ''a'' 1) = ((None, Unchanged, Some (Failure ''boom'')), 1)
   \<and> sync_item ''a'' (demo_cache 2 1 [(''c'', fresh (Item ''c'' 1)),
        (''a'', failed (Item ''a'' 1) 1)]) 0
     = Inr (demo_cache 2 1 [(''a'', failed (Item ''a'' 1) 2), (''c'', fresh (Item ''c'' 1))], 1)"
  using sync_error_recorded [of "''a''"
      "demo_cache 2 1 [(''c'', fresh (Item ''c'' 1)), (''a'', failed (Item ''a'' 1) 1)]"
      "\<lparr>CacheItem = Some (Item ''a'' 1), RetryCount = 1, SyncError = Some (Failure ''boom'')\<rparr>"
      "Item ''a'' 1" demo_cb 0 None Unchanged "Failure ''boom''" 1 "[]"]
  by (simp add: sync_item_def store_defs demo_defs)

text \<open>
  C2. A snapshotted identity whose wrapper has \<open>RetryCount > maxRetries\<close> is skipped: the
  iteration leaves the cache and the callback's world exactly as they were (the callback is
  not invoked, whatever it is), the whole cycle leaves its entry as it was, and \<open>Get\<close> after
  the cycle still returns its item and its last error.
\<close>

theorem sync_skips_stalled:
  assumes "lru_Peek k (lruMap w) = Some (Wrapped wrapper)"
    and "maxRetries w <s RetryCount wrapper"
  shows "sync_item k w \<sigma> = Inr (w, \<sigma>)
       \<and> (\<forall>w' \<sigma>'. sync w \<sigma> = Inr (w', \<sigma>') \<longrightarrow>
            lru_Peek k (lruMap w') = Some (Wrapped wrapper)
            \<and> (\<exists>w''. Get k w' = Inr ((CacheItem wrapper, SyncError wrapper), w'')))"
proof (intro conjI allI impI)
  show "sync_item k w \<sigma> = Inr (w, \<sigma>)"
    using assms by (rule sync_item_stalled)
next
  fix w' \<sigma>'
  assume "sync w \<sigma> = Inr (w', \<sigma>')"
  then have "sync_keys (lru_Keys (lruMap w)) w \<sigma> = Inr (w', \<sigma>')"
    by (simp add: sync_def)
  then show kept: "lru_Peek k (lruMap w') = Some (Wrapped wrapper)"
    using assms by (rule sync_keys_keeps_stalled)
  then show "\<exists>w''. Get k w' = Inr ((CacheItem wrapper, SyncError wrapper), w'')"
    by (simp add: Get_Wrapped)
qed

theorem sync_skips_stalled_witness:
  "lru_Peek ''a'' (lruMap (demo_cache 2 1 [(''c'', fresh (Item ''c'' 1)),
      (''a'', failed (Item ''a'' 1) 2)])) = Some (failed (Item ''a'' 1) 2)
   \<and> (1 :: go_int) <s 2
   \<and> sync_item ''a'' (demo_cache 2 1 [(''c'', fresh (Item ''c'' 1)),
        (''a'', failed (Item ''a'' 1) 2)]) 5
     = Inr (demo_cache 2 1 [(''c'', fresh (Item ''c'' 1)), (''a'', failed (Item ''a'' 1) 2)], 5)
   \<and> sync (demo_cache 2 1 [(''c'', fresh (Item ''c'' 1)), (''a'', failed (Item ''a'' 1) 2)]) 5
     = Inr (demo_cache 2 1 [(''c'', fresh (Item ''c'' 1)), (''a'', failed (Item ''a'' 1) 2)], 6)"
  using sync_skips_stalled [of "''a''"
      "demo_cache 2 1 [(''c'', fresh (Item ''c'' 1)), (''a'', failed (Item ''a'' 1) 2)]"
      "\<lparr>CacheItem = Some (Item ''a'' 1), RetryCount = 2, SyncError = Some (Failure ''boom'')\<rparr>"
      5]
  by (simp add: sync_def sync_item_def store_defs demo_defs)

text \<open>
  C4. When the callback returns a nil error and \<open>Update\<close> for a snapshotted identity, the
  identity then holds a wrapper with the new item, retry count 0 and no error, whatever the
  retry count and the error of the wrapper were before.
\<close>

theorem sync_update_resets:
  assumes "lru_Peek k (lruMap w) = Some (Wrapped wrapper)"
    and "RetryCount wrapper \<le>s maxRetries w"
    and "CacheItem wrapper = Some item"
    and "syncCb w = Some cb"
    and "cb \<sigma> item = ((newItem, Update, None), \<sigma>')"
  shows "\<exists>w'. sync_item k w \<sigma> = Inr (w', \<sigma>')
           \<and> lru_Peek k (lruMap w') =
               Some (Wrapped \<lparr>CacheItem = newItem, RetryCount = 0, SyncError = None\<rparr>)"
  using assms
  by (simp add: sync_item_def Peek_Add_present word_sless_alt word_sle_eq)

theorem sync_update_resets_witness:
  "lru_Peek ''b'' (lruMap (demo_cache 2 3 [(''b'', failed (Item ''b'' 1) 3)]))
     = Some (failed (Item ''b'' 1) 3)
   \<and> (3 :: go_int) \<le>s 3
   \<and> demo_cb 0 (Item ''b'' 1) = ((Some (Item ''b'' 2), Update, None), 1)
   \<and> sync_item ''b'' (demo_cache 2 3 [(''b'', failed (Item ''b'' 1) 3)]) 0
     = Inr (demo_cache 2 3 [(''b'', fresh (Item ''b'' 2))], 1)"
  using sync_update_resets [of "''b''" "demo_cache 2 3 [(''b'', failed (Item ''b'' 1) 3)]"
      "\<lparr>CacheItem = Some (Item ''b'' 1), RetryCount = 3, SyncError = Some (Failure ''boom'')\<rparr>"
      "Item ''b'' 1" demo_cb 0 "Some (Item ''b'' 2)" 1]
  by (simp add: sync_item_def store_defs demo_defs)

text \<open>
  C5. When the callback returns a nil error and \<open>Unchanged\<close> for a snapshotted identity, the
  iteration leaves the whole cache as it was, the entry of that identity included, whatever
  \<open>newItem\<close> the callback returned; only the callback's own world has moved.
\<close>

theorem sync_unchanged_no_mutation:
  assumes "lru_Peek k (lruMap w) = Some (Wrapped wrapper)"
    and "RetryCount wrapper \<le>s maxRetries w"
    and "CacheItem wrapper = Some item"
    and "syncCb w = Some cb"
    and "cb \<sigma> item = ((newItem, Unchanged, None), \<sigma>')"
  shows "sync_item k w \<sigma> = Inr (w, \<sigma>')"
  using assms
  by (simp add: sync_item_def word_sless_alt word_sle_eq Unchanged_def Update_def Delete_def)

theorem sync_unchanged_no_mutation_witness:
  "lru_Peek ''c'' (lruMap (demo_cache 2 1 [(''c'', failed (Item ''c'' 1) 1)]))
     = Some (failed (Item ''c'' 1) 1)
   \<and> (1 :: go_int) \<le>s 1
   \<and> demo_cb 0 (Item ''c'' 1) = ((Some (Item ''other'' 7), Unchanged, None), 1)
   \<and> sync_item ''c'' (demo_cache 2 1 [(''c'', failed (Item ''c'' 1) 1)]) 0
     = Inr (demo_cache 2 1 [(''c'', failed (Item ''c'' 1) 1)], 1)"
  using sync_unchanged_no_mutation [of "''c''" "demo_cache 2 1 [(''c'', failed (Item ''c'' 1) 1)]"
      "\<lparr>CacheItem = Some (Item ''c'' 1), RetryCount = 1, SyncError = Some (Failure ''boom'')\<rparr>"
      "Item ''c'' 1" demo_cb 0 "Some (Item ''other'' 7)" 1]
  by (simp add: store_defs demo_defs)

section \<open>Construction\<close>

text \<open>
  C8, as the code has it. When the scope is nil, or its \<open>MustNewCounter\<close> returns a counter,
  \<open>NewAutoRefreshCache\<close> returns an error exactly when the store constructor does, which is
  exactly when \<open>maxSize\<close> is not positive, and the error is the store constructor's own; for a
  positive \<open>maxSize\<close> it then returns the cache holding the options as given, whatever they
  are (a nil \<open>syncCb\<close> included). With a non-nil scope the counter is asked for first: a panic
  of \<open>MustNewCounter\<close> is the outcome of the construction, whatever \<open>maxSize\<close> is. An error
  that is returned is always the store constructor's.
\<close>

theorem NewAutoRefreshCache_error_iff:
  "(sc = None
      \<or> (\<exists>s c. sc = Some s
            \<and> MustNewCounter s ''lru_evictions'' ''Counter for evictions from LRU'' = Inr c) \<longrightarrow>
      (NewAutoRefreshCache cb limiter period maxSize retries sc = Inr (Inl err)
         \<longleftrightarrow> lru_NewWithEvict maxSize = Inl err)
      \<and> ((\<exists>e. NewAutoRefreshCache cb limiter period maxSize retries sc = Inr (Inl e))
         \<longleftrightarrow> maxSize \<le>s 0)
      \<and> (0 <s maxSize \<longrightarrow>
           NewAutoRefreshCache cb limiter period maxSize retries sc =
             Inr (Inr \<lparr>syncCb = cb, lruMap = \<lparr>lru_size = maxSize, evictList = []\<rparr>,
                       syncRateLimiter = limiter, resyncPeriod = period, scope = sc,
                       maxRetries = retries\<rparr>)))
   \<and> (\<forall>s p. sc = Some s
          \<and> MustNewCounter s ''lru_evictions'' ''Counter for evictions from LRU'' = Inl p \<longrightarrow>
        NewAutoRefreshCache cb limiter period maxSize retries sc = Inl p)
   \<and> (NewAutoRefreshCache cb limiter period maxSize retries sc = Inr (Inl err) \<longrightarrow>
        lru_NewWithEvict maxSize = Inl err)"
  by (auto simp: NewAutoRefreshCache_def lru_NewWithEvict_def word_sless_alt word_sle_eq
      split: option.splits sum.splits)

theorem NewAutoRefreshCache_error_iff_witness:
  "(0 :: go_int) <s 2
   \<and> (NewAutoRefreshCache None None 1000 2 1 None :: panic + (error + nat autoRefreshCache)) =
       Inr (Inr \<lparr>syncCb = None, lruMap = \<lparr>lru_size = 2, evictList = []\<rparr>,
                 syncRateLimiter = None, resyncPeriod = 1000, scope = None, maxRetries = 1\<rparr>)
   \<and> MustNewCounter demo_scope ''lru_evictions'' ''Counter for evictions from LRU'' = Inr 0
   \<and> NewAutoRefreshCache (Some demo_cb) None 1000 2 1 (Some demo_scope) =
       Inr (Inr \<lparr>syncCb = Some demo_cb, lruMap = \<lparr>lru_size = 2, evictList = []\<rparr>,
                 syncRateLimiter = None, resyncPeriod = 1000, scope = Some demo_scope,
                 maxRetries = 1\<rparr>)
   \<and> NewAutoRefreshCache (Some demo_cb) None 1000 0 1 (Some demo_scope) =
       Inr (Inl (Failure ''Must provide a positive size''))"
  using NewAutoRefreshCache_error_iff [of None "None :: nat SyncFunction option" None 1000 2 1]
    NewAutoRefreshCache_error_iff [of "Some demo_scope" "Some demo_cb" None 1000 2 1]
    NewAutoRefreshCache_error_iff [of "Some demo_scope" "Some demo_cb" None 1000 0 1
      "Failure ''Must provide a positive size''"]
  by (simp add: demo_scope_def lru_NewWithEvict_def word_sless_alt word_sle_eq)

text \<open>
  The claim as stated, an error exactly when the store cannot be created and success for
  every positive \<open>maxSize\<close> whatever the other options, fails for a scope whose
  \<open>MustNewCounter\<close> panics: with \<open>maxSize = 2\<close> the construction does not succeed, and with
  \<open>maxSize = 0\<close>, for which the store constructor fails, no error is returned.
\<close>

theorem NewAutoRefreshCache_scope_counterexample:
  "(0 :: go_int) <s 2
   \<and> NewAutoRefreshCache (Some demo_cb) None 1000 2 1 (Some failing_scope)
       = Inl MustNewCounterPanic
   \<and> lru_NewWithEvict 0 = Inl (Failure ''Must provide a positive size'')
   \<and> NewAutoRefreshCache (Some demo_cb) None 1000 0 1 (Some failing_scope)
       = Inl MustNewCounterPanic"
  by (simp add: NewAutoRefreshCache_def failing_scope_def lru_NewWithEvict_def
      word_sless_alt word_sle_eq)

section \<open>Concrete reachable caches\<close>

lemma demo_reachable_empty: "reachable (demo_cache sz retries [])" if "0 <s sz"
proof -
  have "NewAutoRefreshCache (Some demo_cb) None 1000 sz retries None
          = Inr (Inr (demo_cache sz retries []))"
    using that by (simp add: NewAutoRefreshCache_def lru_NewWithEvict_def demo_cache_def
        word_sless_alt word_sle_eq)
  then show ?thesis by (rule reachable_new)
qed

lemma demo_reachable_one:
  "reachable (demo_cache sz retries [(ID it, fresh it)])" if "0 <s sz"
proof -
  have "GetOrCreate (Some it) (demo_cache sz retries [])
          = Inr ((Some it, None), demo_cache sz retries [(ID it, fresh it)])"
    using that by (simp add: GetOrCreate_def store_defs demo_defs)
  then have "step (demo_cache sz retries []) (demo_cache sz retries [(ID it, fresh it)])"
    by (rule step_GetOrCreate)
  with demo_reachable_empty [OF that] show ?thesis by (rule reachable_step)
qed

lemma cycles_reachable:
  "reachable w \<Longrightarrow> cycles n w \<sigma> = Inr (w', \<sigma>') \<Longrightarrow> reachable w'"
proof (induction n arbitrary: w \<sigma>)
  case 0
  then show ?case by simp
next
  case (Suc n)
  from Suc.prems(2) obtain w1 \<sigma>1 where
    one: "sync w \<sigma> = Inr (w1, \<sigma>1)" and rest: "cycles n w1 \<sigma>1 = Inr (w', \<sigma>')"
    by (auto split: sum.splits)
  from one have "step w w1" by (rule step_sync)
  with Suc.prems(1) have "reachable w1" by (rule reachable_step)
  then show ?case using rest by (rule Suc.IH)
qed

section \<open>Get\<close>

lemma reachable_nil_item_no_error:
  "reachable w \<Longrightarrow> entries_sat (\<lambda>x. CacheItem x = None \<longrightarrow> SyncError x = None) (lruMap w)"
  by (rule reachable_entries_sat) simp_all

text \<open>
  C6. \<open>Get\<close> returns the stored item with the wrapper's last error when the identity is in the
  store, and a nil item with \<open>ErrNotFound\<close> when it is not: in a cache just built, and after
  a \<open>Delete\<close> verdict. In every reachable cache the answer (nil, \<open>ErrNotFound\<close>) is given
  exactly when the identity is absent, and an answer from a stored wrapper exactly when it is
  present.
\<close>

theorem Get_found_iff_present:
  "(lru_Peek key (lruMap w) = Some (Wrapped wrapper) \<longrightarrow>
      (\<exists>w'. Get key w = Inr ((CacheItem wrapper, SyncError wrapper), w')))
   \<and> (lru_Peek key (lruMap w) = None \<longrightarrow> Get key w = Inr ((None, Some ErrNotFound), w))
   \<and> (NewAutoRefreshCache cb limiter period maxSize retries sc = Inr (Inr w) \<longrightarrow>
        Get key w = Inr ((None, Some ErrNotFound), w))
   \<and> (lruMap w = lru_Remove key c \<longrightarrow> Get key w = Inr ((None, Some ErrNotFound), w))
   \<and> (reachable w \<longrightarrow>
        ((\<exists>w'. Get key w = Inr ((None, Some ErrNotFound), w'))
           \<longleftrightarrow> lru_Peek key (lruMap w) = None)
        \<and> ((\<exists>x w'. lru_Peek key (lruMap w) = Some (Wrapped x)
                \<and> Get key w = Inr ((CacheItem x, SyncError x), w'))
           \<longleftrightarrow> lru_Peek key (lruMap w) \<noteq> None))"
proof (intro conjI impI)
  assume "lru_Peek key (lruMap w) = Some (Wrapped wrapper)"
  then show "\<exists>w'. Get key w = Inr ((CacheItem wrapper, SyncError wrapper), w')"
    by (simp add: Get_Wrapped)
next
  assume "lru_Peek key (lruMap w) = None"
  then show "Get key w = Inr ((None, Some ErrNotFound), w)" by (rule Get_None)
next
  assume "NewAutoRefreshCache cb limiter period maxSize retries sc = Inr (Inr w)"
  then have "lru_Peek key (lruMap w) = None"
    by (auto simp: NewAutoRefreshCache_def lru_NewWithEvict_def lru_Peek_def
        split: if_splits option.splits sum.splits)
  then show "Get key w = Inr ((None, Some ErrNotFound), w)" by (rule Get_None)
next
  assume "lruMap w = lru_Remove key c"
  then have "lru_Peek key (lruMap w) = None" by (simp add: Peek_Remove)
  then show "Get key w = Inr ((None, Some ErrNotFound), w)" by (rule Get_None)
next
  assume r: "reachable w"
  show "(\<exists>w'. Get key w = Inr ((None, Some ErrNotFound), w'))
          \<longleftrightarrow> lru_Peek key (lruMap w) = None"
  proof
    assume "\<exists>w'. Get key w = Inr ((None, Some ErrNotFound), w')"
    then obtain w' where g: "Get key w = Inr ((None, Some ErrNotFound), w')" ..
    show "lru_Peek key (lruMap w) = None"
    proof (rule ccontr)
      assume "lru_Peek key (lruMap w) \<noteq> None"
      then obtain v where v: "lru_Peek key (lruMap w) = Some v" by auto
      with reachable_nil_item_no_error [OF r] obtain x where
        x: "v = Wrapped x" "CacheItem x = None \<longrightarrow> SyncError x = None"
        by (auto dest: entries_sat_Peek)
      from v x(1) g have "CacheItem x = None \<and> SyncError x = Some ErrNotFound"
        by (simp add: Get_Wrapped)
      with x(2) show False by simp
    qed
  next
    assume "lru_Peek key (lruMap w) = None"
    then show "\<exists>w'. Get key w = Inr ((None, Some ErrNotFound), w')"
      by (auto simp: Get_None)
  qed
next
  assume r: "reachable w"
  show "(\<exists>x w'. lru_Peek key (lruMap w) = Some (Wrapped x)
           \<and> Get key w = Inr ((CacheItem x, SyncError x), w'))
          \<longleftrightarrow> lru_Peek key (lruMap w) \<noteq> None"
  proof
    assume "lru_Peek key (lruMap w) \<noteq> None"
    then obtain v where v: "lru_Peek key (lruMap w) = Some v" by auto
    with reachable_nil_item_no_error [OF r] obtain x where "v = Wrapped x"
      by (auto dest: entries_sat_Peek)
    with v show "\<exists>x w'. lru_Peek key (lruMap w) = Some (Wrapped x)
           \<and> Get key w = Inr ((CacheItem x, SyncError x), w')"
      by (auto simp: Get_Wrapped)
  qed auto
qed

theorem Get_found_iff_present_witness:
  "reachable (demo_cache 2 1 [(''a'', fresh (Item ''a'' 1))])
   \<and> Get ''a'' (demo_cache 2 1 [(''a'', fresh (Item ''a'' 1))])
       = Inr ((Some (Item ''a'' 1), None), demo_cache 2 1 [(''a'', fresh (Item ''a'' 1))])
   \<and> lru_Peek ''z'' (lruMap (demo_cache 2 1 [(''a'', fresh (Item ''a'' 1))])) = None
   \<and> Get ''z'' (demo_cache 2 1 [(''a'', fresh (Item ''a'' 1))])
       = Inr ((None, Some ErrNotFound), demo_cache 2 1 [(''a'', fresh (Item ''a'' 1))])"
  using Get_found_iff_present [of "''z''" "demo_cache 2 1 [(''a'', fresh (Item ''a'' 1))]"]
    demo_reachable_one [of 2 1 "Item ''a'' 1"]
  by (simp add: Get_def store_defs demo_defs)

section \<open>GetOrCreate\<close>

lemma keys_removeElement: "map fst (removeElement k l) = removeAll k (map fst l)"
  by (induction l) (auto simp: removeElement_def)

lemma removeAll_rev: "removeAll k (rev xs) = rev (removeAll k xs)"
  by (induction xs) auto

lemma Keys_touch:
  "lru_Keys (c\<lparr>evictList := (k, v) # removeElement k (evictList c)\<rparr>)
     = removeAll k (lru_Keys c) @ [k]"
  by (simp add: lru_Keys_def keys_removeElement removeAll_rev)



lemma Peek_in_Keys: "lru_Peek k c = Some v \<Longrightarrow> k \<in> set (lru_Keys c)"
  by (auto simp: lru_Peek_def lru_Keys_def dest!: map_of_SomeD intro: rev_image_eqI)

text \<open>
  C3, as the code has it. For an item whose identity is present, \<open>GetOrCreate\<close> returns the
  stored item and its stored last error and discards the argument; no identity's wrapper
  changes and the capacity stays, but the store is not left as it was: the read goes through
  the store's \<open>Get\<close>, so the identity becomes the most recently used, the other identities
  keeping their order. For an item whose identity is absent it returns the argument with a nil
  error and the identity then holds a fresh wrapper, retry count 0 and no error. After that
  insertion a second \<open>GetOrCreate\<close> with the same identity returns the first item, whatever
  item it is given.
\<close>

theorem GetOrCreate_find_or_insert:
  "(lru_Peek (ID it) (lruMap w) = Some (Wrapped wrapper) \<longrightarrow>
      (\<exists>w'. GetOrCreate (Some it) w = Inr ((CacheItem wrapper, SyncError wrapper), w')
         \<and> (\<forall>k. lru_Peek k (lruMap w') = lru_Peek k (lruMap w))
         \<and> lru_size (lruMap w') = lru_size (lruMap w)
         \<and> lru_Keys (lruMap w') = removeAll (ID it) (lru_Keys (lruMap w)) @ [ID it]))
   \<and> (lru_Peek (ID it) (lruMap w) = None \<longrightarrow>
      (\<exists>w'. GetOrCreate (Some it) w = Inr ((Some it, None), w')
         \<and> lru_Peek (ID it) (lruMap w') =
             Some (Wrapped \<lparr>CacheItem = Some it, RetryCount = 0, SyncError = None\<rparr>)
         \<and> (\<forall>it2. ID it2 = ID it \<longrightarrow>
               (\<exists>w''. GetOrCreate (Some it2) w' = Inr ((Some it, None), w'')))))"
proof (intro conjI impI)
  assume present: "lru_Peek (ID it) (lruMap w) = Some (Wrapped wrapper)"
  let ?m = "(lruMap w)\<lparr>evictList :=
              (ID it, Wrapped wrapper) # removeElement (ID it) (evictList (lruMap w))\<rparr>"
  have get: "lru_Get (ID it) (lruMap w) = (Some (Wrapped wrapper), ?m)"
    using present by (rule Get_present)
  have "GetOrCreate (Some it) w = Inr ((CacheItem wrapper, SyncError wrapper), w\<lparr>lruMap := ?m\<rparr>)"
    by (simp add: GetOrCreate_def get)
  moreover have "lru_Peek k ?m = lru_Peek k (lruMap w)" for k
    using Peek_Get [of k "ID it" "lruMap w"] by (simp add: get)
  moreover have "lru_Keys ?m = removeAll (ID it) (lru_Keys (lruMap w)) @ [ID it]"
    by (rule Keys_touch)
  ultimately show "\<exists>w'. GetOrCreate (Some it) w = Inr ((CacheItem wrapper, SyncError wrapper), w')
         \<and> (\<forall>k. lru_Peek k (lruMap w') = lru_Peek k (lruMap w))
         \<and> lru_size (lruMap w') = lru_size (lruMap w)
         \<and> lru_Keys (lruMap w') = removeAll (ID it) (lru_Keys (lruMap w)) @ [ID it]"
    by simp
next
  assume absent: "lru_Peek (ID it) (lruMap w) = None"
  let ?x = "\<lparr>CacheItem = Some it, RetryCount = 0, SyncError = None\<rparr>"
  let ?w' = "w\<lparr>lruMap := lru_Add (ID it) (Wrapped ?x) (lruMap w)\<rparr>"
  have first: "GetOrCreate (Some it) w = Inr ((Some it, None), ?w')"
    using absent by (simp add: GetOrCreate_def Get_absent)
  have stored: "lru_Peek (ID it) (lruMap ?w') = Some (Wrapped ?x)"
    by (simp add: Peek_Add_same)
  have "\<exists>w''. GetOrCreate (Some it2) ?w' = Inr ((Some it, None), w'')" if "ID it2 = ID it" for it2
    using stored that by (simp add: GetOrCreate_def Get_present)
  with first stored
  show "\<exists>w'. GetOrCreate (Some it) w = Inr ((Some it, None), w')
         \<and> lru_Peek (ID it) (lruMap w') = Some (Wrapped ?x)
         \<and> (\<forall>it2. ID it2 = ID it \<longrightarrow>
               (\<exists>w''. GetOrCreate (Some it2) w' = Inr ((Some it, None), w'')))"
    by blast
qed

theorem GetOrCreate_find_or_insert_witness:
  "lru_Peek ''a'' (lruMap (demo_cache 2 1 [])) = None
   \<and> GetOrCreate (Some (Item ''a'' 1)) (demo_cache 2 1 [])
       = Inr ((Some (Item ''a'' 1), None), demo_cache 2 1 [(''a'', fresh (Item ''a'' 1))])
   \<and> lru_Peek ''a'' (lruMap (demo_cache 2 1 [(''a'', fresh (Item ''a'' 1))]))
       = Some (fresh (Item ''a'' 1))
   \<and> GetOrCreate (Some (Item ''a'' 2)) (demo_cache 2 1 [(''a'', fresh (Item ''a'' 1))])
       = Inr ((Some (Item ''a'' 1), None), demo_cache 2 1 [(''a'', fresh (Item ''a'' 1))])"
  using GetOrCreate_find_or_insert [of "Item ''a'' 1" "demo_cache 2 1 []"]
    GetOrCreate_find_or_insert [of "Item ''a'' 2" "demo_cache 2 1 [(''a'', fresh (Item ''a'' 1))]"
      "\<lparr>CacheItem = Some (Item ''a'' 1), RetryCount = 0, SyncError = None\<rparr>"]
  by (simp add: GetOrCreate_def store_defs demo_defs)

text \<open>
  The claim as stated, with the store left unchanged, fails: with \<open>c\<close> more recently used
  than \<open>a\<close>, a \<open>GetOrCreate\<close> of an item with identity \<open>a\<close> returns the stored item and
  leaves a different store, in which \<open>a\<close> is the more recently used.
\<close>

theorem GetOrCreate_store_unchanged_counterexample:
  "GetOrCreate (Some (Item ''a'' 2))
       (demo_cache 2 1 [(''c'', fresh (Item ''c'' 1)), (''a'', fresh (Item ''a'' 1))])
     = Inr ((Some (Item ''a'' 1), None),
            demo_cache 2 1 [(''a'', fresh (Item ''a'' 1)), (''c'', fresh (Item ''c'' 1))])
   \<and> lruMap (demo_cache 2 1 [(''a'', fresh (Item ''a'' 1)), (''c'', fresh (Item ''c'' 1))])
       \<noteq> lruMap (demo_cache 2 1 [(''c'', fresh (Item ''c'' 1)), (''a'', fresh (Item ''a'' 1))])
   \<and> lru_Keys (lruMap (demo_cache 2 1 [(''c'', fresh (Item ''c'' 1)),
        (''a'', fresh (Item ''a'' 1))])) = [''a'', ''c'']
   \<and> lru_Keys (lruMap (demo_cache 2 1 [(''a'', fresh (Item ''a'' 1)),
        (''c'', fresh (Item ''c'' 1))])) = [''c'', ''a'']"
  by (simp add: GetOrCreate_def store_defs demo_defs)

section \<open>Recency\<close>






section \<open>The bound on the retry counter\<close>

lemma sint_MaxInt: "sint MaxInt = 2 ^ 63 - 1"
  by (simp add: MaxInt_def)

lemma not_above_MaxInt: "\<not> MaxInt <s (r :: go_int)"
  using sint_lt [of r] by (simp add: word_sless_alt sint_MaxInt)

lemma retry_bound_step:
  fixes mr r :: go_int
  assumes "0 \<le>s mr" and "mr \<noteq> MaxInt" and "0 \<le>s r" and "\<not> mr <s r"
  shows "0 \<le>s r + 1 \<and> sint (r + 1) \<le> sint mr + 1"
proof -
  have "r \<noteq> MaxInt"
  proof
    assume "r = MaxInt"
    with assms(4) have "sint MaxInt \<le> sint mr" by (simp add: word_sless_alt)
    moreover have "sint mr < 2 ^ 63" using sint_lt [of mr] by simp
    ultimately have "sint mr = sint MaxInt" by (simp add: sint_MaxInt)
    then have "mr = MaxInt" by (rule signed_word_eqI)
    with assms(2) show False by simp
  qed
  then have "sint (r + 1) = sint r + 1" by (rule sint_succ)
  with assms(3,4) show ?thesis by (simp add: word_sless_alt word_sle_eq)
qed

lemma step_keeps_stalled:
  assumes "step w w'" and "lru_Peek k (lruMap w) = Some (Wrapped x)"
    and "maxRetries w <s RetryCount x"
  shows "lru_Peek k (lruMap w') = Some (Wrapped x) \<or> lru_Peek k (lruMap w') = None"
  using assms(1)
proof cases
  case (step_Get key r)
  then have "lruMap w' = snd (lru_Get key (lruMap w))"
    by (auto simp: Get_def split: prod.splits option.splits any.splits)
  with assms(2) show ?thesis by (simp add: Peek_Get)
next
  case (step_GetOrCreate item r)
  then obtain it where item: "item = Some it"
    by (cases item) (auto simp: GetOrCreate_def)
  show ?thesis
  proof (cases "lru_Peek (ID it) (lruMap w)")
    case None
    with step_GetOrCreate item obtain v where "lruMap w' = lru_Add (ID it) v (lruMap w)"
      by (auto simp: GetOrCreate_def Get_absent)
    moreover from None assms(2) have "k \<noteq> ID it" by auto
    ultimately show ?thesis
      using Peek_Add_other [of k "ID it" _ "lruMap w"] assms(2) by auto
  next
    case (Some v)
    with step_GetOrCreate item have "lruMap w' = snd (lru_Get (ID it) (lruMap w))"
      by (auto simp: GetOrCreate_def Get_present split: any.splits)
    with assms(2) show ?thesis by (simp add: Peek_Get)
  qed
next
  case (step_sync \<sigma> \<sigma>')
  then have "sync_keys (lru_Keys (lruMap w)) w \<sigma> = Inr (w', \<sigma>')" by (simp add: sync_def)
  then have "lru_Peek k (lruMap w') = Some (Wrapped x)"
    using assms(2,3) by (rule sync_keys_keeps_stalled)
  then show ?thesis ..
qed

text \<open>
  C9, as the code has it. In every cache reachable from \<open>NewAutoRefreshCache\<close> by \<open>Get\<close>,
  \<open>GetOrCreate\<close> and sync cycles, with \<open>0 \<le> maxRetries\<close> and \<open>maxRetries\<close> below the largest
  \<open>int\<close> (so that \<open>maxRetries + 1\<close> is an \<open>int\<close>), every stored value is a wrapper with
  \<open>0 \<le> RetryCount \<le> maxRetries + 1\<close>; and a wrapper with \<open>RetryCount > maxRetries\<close> is, after
  any further operation, either still the wrapper of its identity or gone from the store.
\<close>

theorem retry_count_bounded:
  assumes "reachable w" and "0 \<le>s maxRetries w" and "maxRetries w \<noteq> MaxInt"
  shows "entries_sat (\<lambda>x. 0 \<le> sint (RetryCount x)
                          \<and> sint (RetryCount x) \<le> sint (maxRetries w) + 1) (lruMap w)
       \<and> (\<forall>k x w'. lru_Peek k (lruMap w) = Some (Wrapped x) \<and> maxRetries w <s RetryCount x
              \<and> step w w' \<longrightarrow>
            lru_Peek k (lruMap w') = Some (Wrapped x) \<or> lru_Peek k (lruMap w') = None)"
proof
  show "entries_sat (\<lambda>x. 0 \<le> sint (RetryCount x)
          \<and> sint (RetryCount x) \<le> sint (maxRetries w) + 1) (lruMap w)"
    using assms(1)
  proof (rule reachable_entries_sat)
    fix it
    show "0 \<le> sint (RetryCount \<lparr>CacheItem = Some it, RetryCount = 0, SyncError = None\<rparr>)
        \<and> sint (RetryCount \<lparr>CacheItem = Some it, RetryCount = 0, SyncError = None\<rparr>)
            \<le> sint (maxRetries w) + 1"
      using assms(2) by (simp add: word_sle_eq)
  next
    fix x :: cacheItemWrapper and it e
    assume "0 \<le> sint (RetryCount x) \<and> sint (RetryCount x) \<le> sint (maxRetries w) + 1"
      and "\<not> maxRetries w <s RetryCount x"
    then show "0 \<le> sint (RetryCount \<lparr>CacheItem = Some it, RetryCount = RetryCount x + 1,
                   SyncError = Some e\<rparr>)
        \<and> sint (RetryCount \<lparr>CacheItem = Some it, RetryCount = RetryCount x + 1,
                   SyncError = Some e\<rparr>) \<le> sint (maxRetries w) + 1"
      using retry_bound_step [OF assms(2,3), of "RetryCount x"] by (simp add: word_sle_eq)
  next
    fix n :: "CacheItem option"
    show "0 \<le> sint (RetryCount \<lparr>CacheItem = n, RetryCount = 0, SyncError = None\<rparr>)
        \<and> sint (RetryCount \<lparr>CacheItem = n, RetryCount = 0, SyncError = None\<rparr>)
            \<le> sint (maxRetries w) + 1"
      using assms(2) by (simp add: word_sle_eq)
  qed
next
  show "\<forall>k x w'. lru_Peek k (lruMap w) = Some (Wrapped x) \<and> maxRetries w <s RetryCount x
            \<and> step w w' \<longrightarrow>
          lru_Peek k (lruMap w') = Some (Wrapped x) \<or> lru_Peek k (lruMap w') = None"
  proof (intro allI impI, elim conjE)
    fix k x w'
    assume "step w w'" and "lru_Peek k (lruMap w) = Some (Wrapped x)"
      and "maxRetries w <s RetryCount x"
    then show "lru_Peek k (lruMap w') = Some (Wrapped x) \<or> lru_Peek k (lruMap w') = None"
      by (rule step_keeps_stalled)
  qed
qed


lemma demo_reachable_two:
  "reachable (demo_cache 2 1 [(''c'', fresh (Item ''c'' 1)), (''a'', fresh (Item ''a'' 1))])"
proof -
  have "GetOrCreate (Some (Item ''c'' 1)) (demo_cache 2 1 [(''a'', fresh (Item ''a'' 1))])
          = Inr ((Some (Item ''c'' 1), None),
                 demo_cache 2 1 [(''c'', fresh (Item ''c'' 1)), (''a'', fresh (Item ''a'' 1))])"
    by (simp add: GetOrCreate_def store_defs demo_defs)
  then have "step (demo_cache 2 1 [(''a'', fresh (Item ''a'' 1))])
      (demo_cache 2 1 [(''c'', fresh (Item ''c'' 1)), (''a'', fresh (Item ''a'' 1))])"
    by (rule step_GetOrCreate)
  moreover have "reachable (demo_cache 2 1 [(''a'', fresh (Item ''a'' 1))])"
    using demo_reachable_one [of 2 1 "Item ''a'' 1"] by (simp add: word_sless_alt)
  ultimately show ?thesis by (rule reachable_step [rotated])
qed

lemma demo_reachable_stalled:
  "reachable (demo_cache 2 1 [(''a'', failed (Item ''a'' 1) 2), (''c'', fresh (Item ''c'' 1))])"
proof -
  have "cycles 2 (demo_cache 2 1 [(''c'', fresh (Item ''c'' 1)), (''a'', fresh (Item ''a'' 1))]) 0
     = Inr (demo_cache 2 1 [(''a'', failed (Item ''a'' 1) 2), (''c'', fresh (Item ''c'' 1))], 4)"
    by (simp add: numeral_2_eq_2 sync_def sync_item_def store_defs demo_defs)
  with demo_reachable_two show ?thesis by (rule cycles_reachable)
qed

theorem retry_count_bounded_witness:
  "reachable (demo_cache 2 1 [(''a'', failed (Item ''a'' 1) 2), (''c'', fresh (Item ''c'' 1))])
   \<and> (0 :: go_int) \<le>s 1 \<and> (1 :: go_int) \<noteq> MaxInt
   \<and> entries_sat (\<lambda>x. 0 \<le> sint (RetryCount x) \<and> sint (RetryCount x) \<le> 2)
       (lruMap (demo_cache 2 1 [(''a'', failed (Item ''a'' 1) 2), (''c'', fresh (Item ''c'' 1))]))"
  using retry_count_bounded
      [of "demo_cache 2 1 [(''a'', failed (Item ''a'' 1) 2), (''c'', fresh (Item ''c'' 1))]"]
    demo_reachable_stalled
  by (simp add: demo_defs)

text \<open>
  The claim as stated, for every \<open>maxRetries \<ge> 0\<close>, fails at the largest \<open>int\<close>: no retry
  count exceeds it, so the item is never stalled, and after \<open>2 ^ 63\<close> cycles in which the
  callback fails the counter has wrapped around to the smallest \<open>int\<close>, which is negative.
\<close>

lemma sync_at_MaxInt:
  "sync (demo_cache 1 MaxInt
           [(''a'', Wrapped \<lparr>CacheItem = Some (Item ''a'' 1), RetryCount = r, SyncError = e\<rparr>)]) n
     = Inr (demo_cache 1 MaxInt [(''a'', failed (Item ''a'' 1) (r + 1))], Suc n)"
  using not_above_MaxInt [of r]
  by (simp add: sync_def sync_item_def store_defs demo_cb_def failed_def demo_cache_def
      Unchanged_def)

lemma cycles_at_MaxInt:
  "cycles (Suc m) (demo_cache 1 MaxInt
           [(''a'', Wrapped \<lparr>CacheItem = Some (Item ''a'' 1), RetryCount = r, SyncError = e\<rparr>)]) n
     = Inr (demo_cache 1 MaxInt [(''a'', failed (Item ''a'' 1) (r + 1 + of_nat m))],
            Suc n + m)"
proof (induction m arbitrary: r e n)
  case 0
  show ?case by (simp add: sync_at_MaxInt)
next
  case (Suc m)
  have "cycles (Suc (Suc m)) (demo_cache 1 MaxInt
           [(''a'', Wrapped \<lparr>CacheItem = Some (Item ''a'' 1), RetryCount = r, SyncError = e\<rparr>)]) n
     = cycles (Suc m) (demo_cache 1 MaxInt [(''a'', failed (Item ''a'' 1) (r + 1))]) (Suc n)"
    by (simp only: cycles.simps(2) [of "Suc m"] sync_at_MaxInt sum.case prod.case)
  also have "\<dots> = Inr (demo_cache 1 MaxInt
        [(''a'', failed (Item ''a'' 1) (r + 1 + 1 + of_nat m))], Suc (Suc n) + m)"
    using Suc.IH [of "r + 1" "Some (Failure ''boom'')" "Suc n"] by (simp add: failed_def)
  finally have run: "cycles (Suc (Suc m)) (demo_cache 1 MaxInt
           [(''a'', Wrapped \<lparr>CacheItem = Some (Item ''a'' 1), RetryCount = r, SyncError = e\<rparr>)]) n
     = Inr (demo_cache 1 MaxInt
        [(''a'', failed (Item ''a'' 1) (r + 1 + 1 + of_nat m))], Suc (Suc n) + m)" .
  have count: "r + 1 + of_nat (Suc m) = r + 1 + 1 + of_nat m" by simp
  have calls: "Suc n + Suc m = Suc (Suc n) + m" by simp
  show ?case unfolding count calls by (rule run)
qed

theorem retry_count_negative_counterexample:
  "GetOrCreate (Some (Item ''a'' 1)) (demo_cache 1 MaxInt [])
     = Inr ((Some (Item ''a'' 1), None), demo_cache 1 MaxInt [(''a'', fresh (Item ''a'' 1))])
   \<and> cycles (2 ^ 63) (demo_cache 1 MaxInt [(''a'', fresh (Item ''a'' 1))]) 0
     = Inr (demo_cache 1 MaxInt [(''a'', failed (Item ''a'' 1) 0x8000000000000000)], 2 ^ 63)
   \<and> reachable (demo_cache 1 MaxInt [(''a'', failed (Item ''a'' 1) 0x8000000000000000)])
   \<and> 0 \<le>s maxRetries (demo_cache 1 MaxInt [(''a'', failed (Item ''a'' 1) 0x8000000000000000)])
   \<and> \<not> entries_sat (\<lambda>x. 0 \<le> sint (RetryCount x)
            \<and> sint (RetryCount x) \<le> sint MaxInt + 1)
         (lruMap (demo_cache 1 MaxInt [(''a'', failed (Item ''a'' 1) 0x8000000000000000)]))"
proof -
  have create: "GetOrCreate (Some (Item ''a'' 1)) (demo_cache 1 MaxInt [])
     = Inr ((Some (Item ''a'' 1), None), demo_cache 1 MaxInt [(''a'', fresh (Item ''a'' 1))])"
    by (simp add: GetOrCreate_def store_defs demo_defs)
  have "cycles (Suc (2 ^ 63 - 1)) (demo_cache 1 MaxInt [(''a'', fresh (Item ''a'' 1))]) 0
     = Inr (demo_cache 1 MaxInt
         [(''a'', failed (Item ''a'' 1) (0 + 1 + of_nat (2 ^ 63 - 1)))], Suc 0 + (2 ^ 63 - 1))"
    unfolding fresh_def by (rule cycles_at_MaxInt)
  moreover have "Suc (2 ^ 63 - 1) = (2 :: nat) ^ 63" by simp
  moreover have "(0 + 1 + of_nat (2 ^ 63 - 1) :: go_int) = 0x8000000000000000" by simp
  moreover have "Suc 0 + (2 ^ 63 - 1) = (2 :: nat) ^ 63" by simp
  ultimately have run: "cycles (2 ^ 63) (demo_cache 1 MaxInt [(''a'', fresh (Item ''a'' 1))]) 0
     = Inr (demo_cache 1 MaxInt [(''a'', failed (Item ''a'' 1) 0x8000000000000000)], 2 ^ 63)"
    by (simp only:)
  have "reachable (demo_cache 1 MaxInt [(''a'', fresh (Item ''a'' 1))])"
    using demo_reachable_one [of 1 MaxInt "Item ''a'' 1"] by (simp add: word_sless_alt)
  then have reach:
    "reachable (demo_cache 1 MaxInt [(''a'', failed (Item ''a'' 1) 0x8000000000000000)])"
    using run by (rule cycles_reachable)
  have neg: "\<not> entries_sat (\<lambda>x. 0 \<le> sint (RetryCount x)
            \<and> sint (RetryCount x) \<le> sint MaxInt + 1)
         (lruMap (demo_cache 1 MaxInt [(''a'', failed (Item ''a'' 1) 0x8000000000000000)]))"
    by (simp add: entries_sat_def demo_cache_def failed_def)
  have "0 \<le>s maxRetries (demo_cache 1 MaxInt [(''a'', failed (Item ''a'' 1) 0x8000000000000000)])"
    by (simp add: demo_cache_def MaxInt_def word_sle_eq)
  with create run reach neg show ?thesis by simp
qed

section \<open>Type assertions\<close>

lemma sync_item_panic:
  assumes "sync_item k w \<sigma> = Inl p" and "entries_sat P (lruMap w)"
  shows "p \<noteq> NotAWrapper \<and> (p = NilCacheItem \<longrightarrow> (\<exists>x. P x \<and> CacheItem x = None))"
proof (cases "lru_Peek k (lruMap w)")
  case None
  with assms(1) show ?thesis by (simp add: sync_item_def)
next
  case (Some v)
  with assms(2) obtain x where x: "v = Wrapped x" "P x" by (auto dest: entries_sat_Peek)
  with Some assms(1) show ?thesis
    by (auto simp: sync_item_def split: if_splits option.splits prod.splits)
qed

lemma sync_keys_panic:
  assumes "sync_keys ks w \<sigma> = Inl p" and "entries_sat P (lruMap w)"
    and err: "\<And>x it e. P x \<Longrightarrow> \<not> maxRetries w <s RetryCount x \<Longrightarrow> CacheItem x = Some it \<Longrightarrow>
           P \<lparr>CacheItem = Some it, RetryCount = RetryCount x + 1, SyncError = Some e\<rparr>"
    and upd: "\<And>cb \<sigma> it n \<sigma>'. syncCb w = Some cb \<Longrightarrow> cb \<sigma> it = ((n, Update, None), \<sigma>') \<Longrightarrow>
           P \<lparr>CacheItem = n, RetryCount = 0, SyncError = None\<rparr>"
  shows "p \<noteq> NotAWrapper \<and> (p = NilCacheItem \<longrightarrow> (\<exists>x. P x \<and> CacheItem x = None))"
  using assms
proof (induction ks arbitrary: w \<sigma>)
  case Nil
  then show ?case by simp
next
  case (Cons k ks)
  show ?case
  proof (cases "sync_item k w \<sigma>")
    case (Inl q)
    with Cons.prems(1) have "sync_item k w \<sigma> = Inl p" by simp
    then show ?thesis using Cons.prems(2) by (rule sync_item_panic)
  next
    case (Inr res)
    then obtain w1 \<sigma>1 where one: "sync_item k w \<sigma> = Inr (w1, \<sigma>1)" by (cases res) auto
    with Cons.prems(1) have rest: "sync_keys ks w1 \<sigma>1 = Inl p" by simp
    have same: "maxRetries w1 = maxRetries w" "syncCb w1 = syncCb w"
      using one by (simp_all add: sync_item_fields)
    have sat1: "entries_sat P (lruMap w1)"
      using one Cons.prems(2)
    proof (rule sync_item_entries_sat)
      show "P \<lparr>CacheItem = Some it, RetryCount = RetryCount x + 1, SyncError = Some e\<rparr>"
        if "P x" "\<not> maxRetries w <s RetryCount x" "CacheItem x = Some it" for x it e
        using that by (rule Cons.prems(3))
      show "P \<lparr>CacheItem = n, RetryCount = 0, SyncError = None\<rparr>"
        if "syncCb w = Some cb" "cb \<sigma> it = ((n, Update, None), \<sigma>')" for cb \<sigma> it n \<sigma>'
        using that by (rule Cons.prems(4))
    qed
    show ?thesis
      using rest sat1
    proof (rule Cons.IH)
      show "P \<lparr>CacheItem = Some it, RetryCount = RetryCount x + 1, SyncError = Some e\<rparr>"
        if "P x" "\<not> maxRetries w1 <s RetryCount x" "CacheItem x = Some it" for x it e
        using that unfolding same by (rule Cons.prems(3))
      show "P \<lparr>CacheItem = n, RetryCount = 0, SyncError = None\<rparr>"
        if "syncCb w1 = Some cb" "cb \<sigma> it = ((n, Update, None), \<sigma>')" for cb \<sigma> it n \<sigma>'
        using that unfolding same by (rule Cons.prems(4))
    qed
  qed
qed

lemma reachable_all_wrapped: "reachable w \<Longrightarrow> entries_sat (\<lambda>x. True) (lruMap w)"
  by (rule reachable_entries_sat) simp_all

lemma reachable_items_not_nil:
  assumes "reachable w"
    and "\<And>cb \<sigma> it n \<sigma>'. syncCb w = Some cb \<Longrightarrow> cb \<sigma> it = ((n, Update, None), \<sigma>') \<Longrightarrow> n \<noteq> None"
  shows "entries_sat (\<lambda>x. CacheItem x \<noteq> None) (lruMap w)"
  using assms(1)
proof (rule reachable_entries_sat)
  show "CacheItem \<lparr>CacheItem = n, RetryCount = 0, SyncError = None\<rparr> \<noteq> None"
    if "syncCb w = Some cb" "cb \<sigma> it = ((n, Update, None), \<sigma>')" for cb \<sigma> it n \<sigma>'
    using assms(2) [OF that] by simp
qed simp_all

text \<open>
  C10, as the code has it. In every reachable cache every stored value is a
  \<open>cacheItemWrapper\<close>, so the assertions \<open>.(cacheItemWrapper)\<close> never fail: \<open>Get\<close> returns,
  \<open>GetOrCreate\<close> of a non-nil item returns, and a cycle never panics on that assertion. An
  entry created by \<open>GetOrCreate\<close> has a non-nil item (a nil argument panics before anything
  is stored). The assertion \<open>.(CacheItem)\<close> on the embedded item in \<open>sync\<close> never fails
  provided the callback never returns a nil \<open>newItem\<close> together with \<open>Update\<close> and a nil
  error: then every stored item is non-nil.
\<close>

theorem type_assertions_safe:
  assumes "reachable w"
  shows "entries_sat (\<lambda>x. True) (lruMap w)
       \<and> (\<exists>r w'. Get key w = Inr (r, w'))
       \<and> (\<exists>r w'. GetOrCreate (Some it) w = Inr (r, w'))
       \<and> GetOrCreate None w = Inl NilDereference
       \<and> (lru_Peek (ID it) (lruMap w) = None \<longrightarrow>
            (\<exists>r w'. GetOrCreate (Some it) w = Inr (r, w')
               \<and> lru_Peek (ID it) (lruMap w') =
                   Some (Wrapped \<lparr>CacheItem = Some it, RetryCount = 0, SyncError = None\<rparr>)))
       \<and> sync w \<sigma> \<noteq> Inl NotAWrapper
       \<and> ((\<forall>cb s i n s'. syncCb w = Some cb \<and> cb s i = ((n, Update, None), s') \<longrightarrow> n \<noteq> None)
            \<longrightarrow> entries_sat (\<lambda>x. CacheItem x \<noteq> None) (lruMap w)
                \<and> sync w \<sigma> \<noteq> Inl NilCacheItem)"
proof (intro conjI impI)
  show all: "entries_sat (\<lambda>x. True) (lruMap w)"
    using assms by (rule reachable_all_wrapped)
  show "\<exists>r w'. Get key w = Inr (r, w')"
  proof (cases "lru_Peek key (lruMap w)")
    case None
    then show ?thesis by (simp add: Get_None)
  next
    case (Some v)
    with all obtain x where "v = Wrapped x" by (auto dest: entries_sat_Peek)
    with Some show ?thesis by (simp add: Get_Wrapped)
  qed
  show "\<exists>r w'. GetOrCreate (Some it) w = Inr (r, w')"
  proof (cases "lru_Peek (ID it) (lruMap w)")
    case None
    then show ?thesis by (simp add: GetOrCreate_def Get_absent)
  next
    case (Some v)
    with all obtain x where "v = Wrapped x" by (auto dest: entries_sat_Peek)
    with Some show ?thesis by (simp add: GetOrCreate_def Get_present)
  qed
  show "GetOrCreate None w = Inl NilDereference"
    by (simp add: GetOrCreate_def)
  show "\<exists>r w'. GetOrCreate (Some it) w = Inr (r, w')
          \<and> lru_Peek (ID it) (lruMap w') =
              Some (Wrapped \<lparr>CacheItem = Some it, RetryCount = 0, SyncError = None\<rparr>)"
    if "lru_Peek (ID it) (lruMap w) = None"
    using that by (simp add: GetOrCreate_def Get_absent Peek_Add_same)
  show "sync w \<sigma> \<noteq> Inl NotAWrapper"
  proof
    assume "sync w \<sigma> = Inl NotAWrapper"
    then have "sync_keys (lru_Keys (lruMap w)) w \<sigma> = Inl NotAWrapper" by (simp add: sync_def)
    then have "NotAWrapper \<noteq> NotAWrapper" using all
      by (rule sync_keys_panic [THEN conjunct1]) simp_all
    then show False by simp
  qed
next
  assume proper: "\<forall>cb s i n s'. syncCb w = Some cb \<and> cb s i = ((n, Update, None), s')
                    \<longrightarrow> n \<noteq> None"
  have nonnil: "n \<noteq> None"
    if "syncCb w = Some cb" "cb \<sigma> it = ((n, Update, None), \<sigma>')" for cb \<sigma> it n \<sigma>'
    using proper that by blast
  show items: "entries_sat (\<lambda>x. CacheItem x \<noteq> None) (lruMap w)"
    using assms nonnil by (rule reachable_items_not_nil)
  show "sync w \<sigma> \<noteq> Inl NilCacheItem"
  proof
    assume "sync w \<sigma> = Inl NilCacheItem"
    then have "sync_keys (lru_Keys (lruMap w)) w \<sigma> = Inl NilCacheItem" by (simp add: sync_def)
    then have "NilCacheItem \<noteq> NotAWrapper \<and> (NilCacheItem = NilCacheItem \<longrightarrow>
        (\<exists>x :: cacheItemWrapper. CacheItem x \<noteq> None \<and> CacheItem x = None))"
      using items
    proof (rule sync_keys_panic [where P = "\<lambda>x. CacheItem x \<noteq> None"])
      show "CacheItem \<lparr>CacheItem = n, RetryCount = 0, SyncError = None\<rparr> \<noteq> None"
        if "syncCb w = Some cb" "cb \<sigma> it = ((n, Update, None), \<sigma>')" for cb \<sigma> it n \<sigma>'
        using nonnil [OF that] by simp
    qed simp
    then show False by auto
  qed
qed

text \<open>
  The claim as stated, that no type assertion of \<open>sync\<close> fails in a reachable cache, fails: the
  callback answers \<open>Update\<close> with a nil item for \<open>n\<close>, the cycle stores a wrapper whose item is
  nil, and the next cycle panics on the assertion \<open>wrapper.CacheItem.(CacheItem)\<close>.
\<close>

theorem nil_item_assertion_counterexample:
  "GetOrCreate (Some (Item ''n'' 1)) (demo_cache 2 1 [])
     = Inr ((Some (Item ''n'' 1), None), demo_cache 2 1 [(''n'', fresh (Item ''n'' 1))])
   \<and> sync (demo_cache 2 1 [(''n'', fresh (Item ''n'' 1))]) 0
     = Inr (demo_cache 2 1
         [(''n'', Wrapped \<lparr>CacheItem = None, RetryCount = 0, SyncError = None\<rparr>)], 1)
   \<and> reachable (demo_cache 2 1
         [(''n'', Wrapped \<lparr>CacheItem = None, RetryCount = 0, SyncError = None\<rparr>)])
   \<and> sync (demo_cache 2 1
         [(''n'', Wrapped \<lparr>CacheItem = None, RetryCount = 0, SyncError = None\<rparr>)]) 1
     = Inl NilCacheItem"
proof -
  have run: "sync (demo_cache 2 1 [(''n'', fresh (Item ''n'' 1))]) 0
     = Inr (demo_cache 2 1
         [(''n'', Wrapped \<lparr>CacheItem = None, RetryCount = 0, SyncError = None\<rparr>)], 1)"
    by (simp add: sync_def sync_item_def store_defs demo_defs)
  then have "step (demo_cache 2 1 [(''n'', fresh (Item ''n'' 1))])
     (demo_cache 2 1 [(''n'', Wrapped \<lparr>CacheItem = None, RetryCount = 0, SyncError = None\<rparr>)])"
    by (rule step_sync)
  moreover have "reachable (demo_cache 2 1 [(''n'', fresh (Item ''n'' 1))])"
    using demo_reachable_one [of 2 1 "Item ''n'' 1"] by (simp add: word_sless_alt)
  ultimately have "reachable (demo_cache 2 1
         [(''n'', Wrapped \<lparr>CacheItem = None, RetryCount = 0, SyncError = None\<rparr>)])"
    by (rule reachable_step [rotated])
  with run show ?thesis
    by (simp add: GetOrCreate_def sync_def sync_item_def store_defs demo_defs)
qed

lemma bump_reachable:
  "reachable ((demo_cache 2 1 [(''a'', fresh (Item ''a'' 1))])\<lparr>syncCb := Some bump_cb\<rparr>)"
proof -
  have "NewAutoRefreshCache (Some bump_cb) None 1000 2 1 None
          = Inr (Inr ((demo_cache 2 1 [])\<lparr>syncCb := Some bump_cb\<rparr>))"
    by (simp add: NewAutoRefreshCache_def store_defs demo_defs)
  then have "reachable ((demo_cache 2 1 [])\<lparr>syncCb := Some bump_cb\<rparr>)"
    by (rule reachable_new)
  moreover have "GetOrCreate (Some (Item ''a'' 1)) ((demo_cache 2 1 [])\<lparr>syncCb := Some bump_cb\<rparr>)
      = Inr ((Some (Item ''a'' 1), None),
             (demo_cache 2 1 [(''a'', fresh (Item ''a'' 1))])\<lparr>syncCb := Some bump_cb\<rparr>)"
    by (simp add: GetOrCreate_def store_defs demo_defs)
  then have "step ((demo_cache 2 1 [])\<lparr>syncCb := Some bump_cb\<rparr>)
      ((demo_cache 2 1 [(''a'', fresh (Item ''a'' 1))])\<lparr>syncCb := Some bump_cb\<rparr>)"
    by (rule step_GetOrCreate)
  ultimately show ?thesis by (rule reachable_step)
qed

theorem type_assertions_safe_witness:
  "reachable ((demo_cache 2 1 [(''a'', fresh (Item ''a'' 1))])\<lparr>syncCb := Some bump_cb\<rparr>)
   \<and> entries_sat (\<lambda>x. CacheItem x \<noteq> None)
       (lruMap ((demo_cache 2 1 [(''a'', fresh (Item ''a'' 1))])\<lparr>syncCb := Some bump_cb\<rparr>))
   \<and> sync ((demo_cache 2 1 [(''a'', fresh (Item ''a'' 1))])\<lparr>syncCb := Some bump_cb\<rparr>) 0
       = Inr ((demo_cache 2 1 [(''a'', fresh (Item ''a'' 2))])\<lparr>syncCb := Some bump_cb\<rparr>, 1)
   \<and> Get ''a'' ((demo_cache 2 1 [(''a'', fresh (Item ''a'' 1))])\<lparr>syncCb := Some bump_cb\<rparr>)
       = Inr ((Some (Item ''a'' 1), None),
              (demo_cache 2 1 [(''a'', fresh (Item ''a'' 1))])\<lparr>syncCb := Some bump_cb\<rparr>)"
proof -
  let ?w = "(demo_cache 2 1 [(''a'', fresh (Item ''a'' 1))])\<lparr>syncCb := Some bump_cb\<rparr>"
  have proper: "\<forall>cb s i n s'. syncCb ?w = Some cb \<and> cb s i = ((n, Update, None), s')
                  \<longrightarrow> n \<noteq> None"
    by (auto simp: demo_cache_def bump_cb_def)
  have "entries_sat (\<lambda>x. CacheItem x \<noteq> None) (lruMap ?w)"
    using type_assertions_safe [OF bump_reachable, of "''a''" "Item ''a'' 1" 0] proper
    by blast
  moreover have "sync ?w 0
       = Inr ((demo_cache 2 1 [(''a'', fresh (Item ''a'' 2))])\<lparr>syncCb := Some bump_cb\<rparr>, 1)"
    by (simp add: sync_def sync_item_def store_defs demo_defs bump_cb_def)
  moreover have "Get ''a'' ?w = Inr ((Some (Item ''a'' 1), None), ?w)"
    by (simp add: Get_def store_defs demo_defs)
  ultimately show ?thesis using bump_reachable by simp
qed

end
